theory Spec2Isabelle
  imports Main
begin

section \<open>The operator table generator \<open>pdf/omni/operators.py\<close>\<close>

text \<open>
  The script holds a literal list of rows \<open>adobe_lines\<close>, compiles one regular expression
  \<open>RE_LINE = ^(.*?)\s+(.*?)(\d+)?$\<close>, and prints a Go map literal: a line with the row count,
  an opening line, one line per row built from groups 1 and 2 of the match, and a closing line.

  Strings are modelled as \<open>string\<close>; every character of the table is ASCII.  The character
  classes are those of Python 3 \<open>str\<close> patterns on code points below 256.
\<close>

subsection \<open>Character classes of the pattern\<close>

definition newline :: char where
  "newline = CHR 0x0A"

text \<open>\<open>\s\<close>: tab, line feed, vertical tab, form feed, carriage return, the separators
  0x1C to 0x1F, space, NEL (0x85) and no-break space (0xA0).\<close>

definition is_space :: "char \<Rightarrow> bool" where
  "is_space c = (let n = (of_char c :: nat) in
     (9 \<le> n \<and> n \<le> 13) \<or> (28 \<le> n \<and> n \<le> 32) \<or> n = 133 \<or> n = 160)"

text \<open>\<open>\d\<close>: the decimal digits.\<close>

definition is_digit :: "char \<Rightarrow> bool" where
  "is_digit c = (let n = (of_char c :: nat) in 48 \<le> n \<and> n \<le> 57)"

text \<open>\<open>.\<close> without the DOTALL flag: any character but the line feed.\<close>

definition is_dot :: "char \<Rightarrow> bool" where
  "is_dot c = (c \<noteq> newline)"

text \<open>\<open>$\<close> without the MULTILINE flag: the end of the string, or just before a line feed
  that ends the string.\<close>

definition at_end :: "string \<Rightarrow> bool" where
  "at_end r = (r = [] \<or> r = [newline])"

subsection \<open>The backtracking matcher for \<open>RE_LINE\<close>\<close>

text \<open>
  Each function takes the rest of the subject string at the current position and follows the
  order in which the backtracking engine explores the alternatives.

  \<open>try_digits k r\<close>: the greedy \<open>\d+\<close> of group 3 with \<open>k\<close> digits available at \<open>r\<close>; the
  longest run first, giving one digit back at a time, each time followed by \<open>$\<close>.
\<close>

fun try_digits :: "nat \<Rightarrow> string \<Rightarrow> string option" where
  "try_digits 0 r = None"
| "try_digits (Suc k) r =
     (if at_end (drop (Suc k) r) then Some (take (Suc k) r) else try_digits k r)"

text \<open>\<open>(\d+)?$\<close>: first with the group taking part, then with the group skipped
  (its value is then \<open>None\<close>).\<close>

definition match_tail :: "string \<Rightarrow> string option option" where
  "match_tail r =
     (case try_digits (length (takeWhile is_digit r)) r of
        Some d \<Rightarrow> Some (Some d)
      | None \<Rightarrow> if at_end r then Some None else None)"

text \<open>\<open>(.*?)\<close> of group 2, lazy: the rest of the pattern is tried first, and only when it
  fails does the group take one more character; \<open>acc\<close> is the text the group holds so far.\<close>

fun match_g2 :: "string \<Rightarrow> string \<Rightarrow> (string \<times> string option) option" where
  "match_g2 acc [] =
     (case match_tail [] of Some g3 \<Rightarrow> Some (acc, g3) | None \<Rightarrow> None)"
| "match_g2 acc (c # r) =
     (case match_tail (c # r) of
        Some g3 \<Rightarrow> Some (acc, g3)
      | None \<Rightarrow> if is_dot c then match_g2 (acc @ [c]) r else None)"

text \<open>\<open>\s+\<close>, greedy, with \<open>k\<close> whitespace characters available at \<open>r\<close>: the whole run first,
  then one character less, down to one.\<close>

fun match_ws :: "nat \<Rightarrow> string \<Rightarrow> (string \<times> string option) option" where
  "match_ws 0 r = None"
| "match_ws (Suc k) r =
     (case match_g2 [] (drop (Suc k) r) of
        Some x \<Rightarrow> Some x
      | None \<Rightarrow> match_ws k r)"

text \<open>\<open>(.*?)\<close> of group 1, lazy, after \<open>^\<close>.\<close>

fun match_g1 :: "string \<Rightarrow> string \<Rightarrow> (string \<times> string \<times> string option) option" where
  "match_g1 acc [] =
     (case match_ws (length (takeWhile is_space [])) [] of
        Some (g2, g3) \<Rightarrow> Some (acc, g2, g3)
      | None \<Rightarrow> None)"
| "match_g1 acc (c # r) =
     (case match_ws (length (takeWhile is_space (c # r))) (c # r) of
        Some (g2, g3) \<Rightarrow> Some (acc, g2, g3)
      | None \<Rightarrow> if is_dot c then match_g1 (acc @ [c]) r else None)"

text \<open>\<open>RE_LINE.search(line)\<close>: \<open>None\<close> when there is no match, else the three groups, the
  third being \<open>None\<close> when the optional group took no part.  \<open>search\<close> tries every start
  position, but \<open>^\<close> holds at position 0 only, so the only attempt that can succeed is the one
  at the start of the string.\<close>

definition RE_LINE_search :: "string \<Rightarrow> (string \<times> string \<times> string option) option" where
  "RE_LINE_search line = match_g1 [] line"

subsection \<open>The table\<close>

definition adobe_lines :: "string list" where
  "adobe_lines = [
     ''b closepath, fill, stroke Close, fill, and stroke path using nonzero winding number rule 60'',
     ''B fill, stroke Fill and stroke path using nonzero winding number rule 60'',
     ''b* closepath, eofill, stroke Close, fill, and stroke path using even-odd rule 60'',
     ''B* eofill, stroke Fill and stroke path using even-odd rule 60'',
     ''BDC (PDF 1.2) Begin marked-content sequence with property list 320'',
     ''BI Begin inline image object 92'',
     ''BMC (PDF 1.2) Begin marked-content sequence 320'',
     ''BT Begin text object 107'',
     ''BX (PDF 1.1) Begin compatibility section 32'',
     ''c curveto Append curved segment to path (three control points) 59'',
     ''cm concat Concatenate matrix to current transformation matrix 57'',
     ''CS setcolorspace (PDF 1.1) Set color space for stroking operations 74'',
     ''cs setcolorspace (PDF 1.1) Set color space for nonstroking operations 74'',
     ''d setdash Set line dash pattern 57'',
     ''d0 setcharwidth Set glyph width in Type 3 font 113'',
     ''d1 setcachedevice Set glyph width and bounding box in Type 3 font 113'',
     ''Do Invoke named XObject 87'',
     ''DP (PDF 1.2) Define marked-content point with property list 320'',
     ''EI End inline image object 92'',
     ''EMC (PDF 1.2) End marked-content sequence 320'',
     ''ET End text object 107'',
     ''EX (PDF 1.1) End compatibility section 32'',
     ''f fill Fill path using nonzero winding number rule 60'',
     ''F fill Fill path using nonzero winding number rule (obsolete) 60'',
     ''f* eofill Fill path using even-odd rule 60'',
     ''G setgray Set gray level for stroking operations 74'',
     ''g setgray Set gray level for nonstroking operations 74'',
     ''gs (PDF 1.2) Set parameters from graphics state parameter dictionary 57'',
     ''h closepath Close subpath 59'',
     ''i setflat Set flatness tolerance 57'',
     ''ID Begin inline image data 92'',
     ''j setlinejoin Set line join style 57'',
     ''J setlinecap Set line cap style 57'',
     ''K setcmykcolor Set CMYK color for stroking operations 74'',
     ''k setcmykcolor Set CMYK color for nonstroking operations 74'',
     ''l lineto Append straight line segment to path 59'',
     ''m moveto Begin new subpath 59'',
     ''M setmiterlimit Set miter limit 57'',
     ''MP (PDF 1.2) Define marked-content point 320'',
     ''n End path without filling or stroking 60'',
     ''q gsave Save graphics state 57'',
     ''Q grestore Restore graphics state 57'',
     ''re Append rectangle to path 59'',
     ''RG setrgbcolor Set RGB color for stroking operations 74'',
     ''rg setrgbcolor Set RGB color for nonstroking operations 74'',
     ''ri Set color rendering intent 57'',
     ''s closepath, stroke Close and stroke path 60'',
     ''S stroke Stroke path 60'',
     ''SC setcolor (PDF 1.1) Set color for stroking operations 74'',
     ''sc setcolor (PDF 1.1) Set color for nonstroking operations 74'',
     ''SCN setcolor (PDF 1.2) Set color for stroking operations (ICCBased and special colour spaces) 74'',
     ''scn setcolor (PDF 1.2) Set color for nonstroking operations (ICCBased and special colour spaces) 74'',
     ''sh shfill (PDF 1.3) Paint area defined by shading pattern 77'',
     ''T* Move to start of next text line 108'',
     ''Tc Set character spacing'',
     ''Td Move text position 108'',
     ''TD Move text position and set leading 108'',
     ''Tf selectfont Set text font and size'',
     ''Tj show Show text 109'',
     ''TJ Show text, allowing individual glyph positioning 109'',
     ''TL Set text leading'',
     ''Tm Set text matrix and text line matrix 108'',
     ''Tr Set text rendering mode'',
     ''Ts Set text rise'',
     ''Tw Set word spacing'',
     ''Tz Set horizontal text scaling'',
     ''v curveto Append curved segment to path (initial point replicated) 59'',
     ''w setlinewidth Set line width 57'',
     ''W clip Set clipping path using nonzero winding number rule 61'',
     ''W* eoclip Set clipping path using even-odd rule 61'',
     ''y curveto Append curved segment to path (final point replicated) 59'',
     [CHR 0x27] @ '' Move to next line and show text 109'',
     [CHR 0x22] @ '' Set word and character spacing, move to next line, and show text 109''
  ]"

subsection \<open>Formatting\<close>

text \<open>\<open>%d\<close> of a non-negative integer: its decimal digits.\<close>

definition digit_char :: "nat \<Rightarrow> char" where
  "digit_char n = char_of (48 + n)"

function str_nat :: "nat \<Rightarrow> string" where
  "str_nat n = (if n < 10 then [digit_char n] else str_nat (n div 10) @ [digit_char (n mod 10)])"
  by pat_completeness auto
termination
  by (relation "measure id") auto

declare str_nat.simps [simp del]

text \<open>\<open>%3d\<close>: the decimal digits, padded with spaces on the left to a width of 3.\<close>

definition fmt_3d :: "nat \<Rightarrow> string" where
  "fmt_3d n = replicate (3 - length (str_nat n)) (CHR '' '') @ str_nat n"

subsection \<open>The emitter\<close>

text \<open>\<open>m.group(1)\<close> on \<open>m = None\<close> raises \<open>AttributeError\<close>.\<close>

datatype error = AttributeError

text \<open>The format string of the loop body applied to its three arguments:
  \<open>'\t`%s`: false,  // %3d: %s' % (g1, i, g2)\<close>.\<close>

definition fmt_row :: "string \<Rightarrow> nat \<Rightarrow> string \<Rightarrow> string" where
  "fmt_row g1 i g2 =
     [CHR 0x09, CHR 0x60] @ g1 @ [CHR 0x60] @ '': false,  // '' @ fmt_3d i @ '': '' @ g2"

text \<open>The argument of \<open>print\<close> in the loop body, with \<open>m = RE_LINE.search(line)\<close>.\<close>

definition emit_line :: "nat \<Rightarrow> string \<Rightarrow> error + string" where
  "emit_line i line =
     (case RE_LINE_search line of
        None \<Rightarrow> Inl AttributeError
      | Some (g1, g2, g3) \<Rightarrow> Inr (fmt_row g1 i g2))"

text \<open>The loop \<open>for i, line in enumerate(adobe_lines)\<close>: \<open>out\<close> is the list of strings
  printed so far, one per call of \<open>print\<close>; an exception ends the run with what was printed.\<close>

fun emit_loop :: "nat \<Rightarrow> string list \<Rightarrow> string list \<Rightarrow> string list \<times> error option" where
  "emit_loop i [] out = (out, None)"
| "emit_loop i (line # rest) out =
     (case emit_line i line of
        Inl e \<Rightarrow> (out, Some e)
      | Inr s \<Rightarrow> emit_loop (Suc i) rest (out @ [s]))"

text \<open>The two lines printed before the loop: \<open>'%d lines' % len(adobe_lines)\<close> and the
  opening line of the map literal.\<close>

definition header_lines :: "string list" where
  "header_lines =
     [str_nat (length adobe_lines) @ '' lines'', ''var markingOperators = map[string]bool{'']"

text \<open>The module body: the two header lines, the loop, the closing line.\<close>

definition program :: "string list \<times> error option" where
  "program =
     (case emit_loop 0 adobe_lines header_lines of
        (out, Some e) \<Rightarrow> (out, Some e)
      | (out, None) \<Rightarrow> (out @ [''}''], None))"

text \<open>Standard output as text: \<open>print\<close> writes its argument and a line feed.\<close>

definition stdout_text :: "string list \<Rightarrow> string" where
  "stdout_text out = concat (map (\<lambda>s. s @ [newline]) out)"

text \<open>The exit status of the interpreter: 0 when the module body ends, 1 after an uncaught
  exception.\<close>

definition exit_code :: "string list \<times> error option \<Rightarrow> nat" where
  "exit_code r = (case snd r of None \<Rightarrow> 0 | Some e \<Rightarrow> 1)"


text \<open>The row template in the words of the specification: a backtick-quoted operator name,
  a colon, the value \<open>false\<close> followed by a comma, two spaces, \<open>//\<close>, the row index
  right-justified to 3 columns, a colon, a space, and the middle text.\<close>

definition spec_row_line :: "string \<Rightarrow> nat \<Rightarrow> string \<Rightarrow> string" where
  "spec_row_line name i middle =
     [CHR 0x60] @ name @ [CHR 0x60] @ '':'' @ ''false,'' @ ''  '' @ ''//'' @ fmt_3d i @
     '':'' @ '' '' @ middle"

section \<open>Properties of the matcher\<close>

subsection \<open>When the pattern matches\<close>

lemma match_tail_Nil: "match_tail [] = Some None"
  by (simp add: match_tail_def at_end_def)

lemma match_g2_total: "newline \<notin> set r \<Longrightarrow> match_g2 acc r \<noteq> None"
proof (induction r arbitrary: acc)
  case Nil
  show ?case by (simp add: match_tail_Nil)
next
  case (Cons c r)
  then have "is_dot c" and "newline \<notin> set r" by (auto simp: is_dot_def)
  with Cons.IH show ?case by (simp split: option.split)
qed

lemma match_ws_total:
  assumes "0 < k" and "newline \<notin> set r"
  shows "match_ws k r \<noteq> None"
proof -
  from assms(1) obtain n where k: "k = Suc n" by (cases k) auto
  have "newline \<notin> set (drop (Suc n) r)"
    using assms(2) by (meson in_set_dropD)
  then have "match_g2 [] (drop (Suc n) r) \<noteq> None" by (rule match_g2_total)
  then show ?thesis unfolding k by (auto split: option.split)
qed

lemma match_g1_total:
  "newline \<notin> set s \<Longrightarrow> \<exists>c\<in>set s. is_space c \<Longrightarrow> match_g1 acc s \<noteq> None"
proof (induction s arbitrary: acc)
  case Nil
  then show ?case by simp
next
  case (Cons c r)
  show ?case
  proof (cases "is_space c")
    case True
    then have "0 < length (takeWhile is_space (c # r))" by simp
    then have "match_ws (length (takeWhile is_space (c # r))) (c # r) \<noteq> None"
      using Cons.prems(1) by (rule match_ws_total)
    then obtain g2 g3
      where "match_ws (length (takeWhile is_space (c # r))) (c # r) = Some (g2, g3)"
      by fastforce
    then have "match_g1 acc (c # r) = Some (acc, g2, g3)"
      by (simp only: match_g1.simps option.case prod.case)
    then show ?thesis by simp
  next
    case False
    then have ws: "match_ws (length (takeWhile is_space (c # r))) (c # r) = None" by simp
    from False Cons.prems have "newline \<notin> set r" "\<exists>c\<in>set r. is_space c" "is_dot c"
      by (auto simp: is_dot_def)
    then show ?thesis using Cons.IH ws by simp
  qed
qed

lemma match_g1_needs_space: "match_g1 acc s \<noteq> None \<Longrightarrow> \<exists>c\<in>set s. is_space c"
proof (induction s arbitrary: acc)
  case Nil
  then show ?case by simp
next
  case (Cons c r)
  show ?case
  proof (cases "is_space c")
    case True
    then show ?thesis by simp
  next
    case False
    then have ws: "match_ws (length (takeWhile is_space (c # r))) (c # r) = None" by simp
    with Cons.prems have "match_g1 (acc @ [c]) r \<noteq> None" by (simp split: if_splits)
    then show ?thesis using Cons.IH by auto
  qed
qed

lemma search_total:
  "newline \<notin> set s \<Longrightarrow> \<exists>c\<in>set s. is_space c \<Longrightarrow> RE_LINE_search s \<noteq> None"
  unfolding RE_LINE_search_def by (rule match_g1_total)

subsection \<open>The groups hold no line feed\<close>

lemma match_g2_dot:
  "match_g2 acc r = Some (g2, g3) \<Longrightarrow> newline \<notin> set acc \<Longrightarrow> newline \<notin> set g2"
proof (induction r arbitrary: acc)
  case Nil
  then show ?case by (auto split: option.splits)
next
  case (Cons c r)
  show ?case
  proof (cases "match_tail (c # r)")
    case (Some t)
    with Cons.prems show ?thesis by simp
  next
    case None
    with Cons.prems have d: "is_dot c" and m: "match_g2 (acc @ [c]) r = Some (g2, g3)"
      by (auto split: if_splits)
    from d Cons.prems(2) have "newline \<notin> set (acc @ [c])" by (auto simp: is_dot_def)
    with m show ?thesis by (rule Cons.IH)
  qed
qed

lemma match_ws_dot: "match_ws k r = Some (g2, g3) \<Longrightarrow> newline \<notin> set g2"
proof (induction k)
  case 0
  then show ?case by simp
next
  case (Suc k)
  show ?case
  proof (cases "match_g2 [] (drop (Suc k) r)")
    case None
    with Suc show ?thesis by simp
  next
    case (Some x)
    with Suc.prems have "match_g2 [] (drop (Suc k) r) = Some (g2, g3)" by simp
    then show ?thesis by (rule match_g2_dot) simp
  qed
qed

lemma match_g1_dot:
  "match_g1 acc s = Some (g1, g2, g3) \<Longrightarrow> newline \<notin> set acc \<Longrightarrow>
     newline \<notin> set g1 \<and> newline \<notin> set g2"
proof (induction s arbitrary: acc)
  case Nil
  then show ?case by simp
next
  case (Cons c r)
  show ?case
  proof (cases "match_ws (length (takeWhile is_space (c # r))) (c # r)")
    case (Some x)
    obtain h2 h3 where x: "x = (h2, h3)" by (cases x)
    from Some x have "match_g1 acc (c # r) = Some (acc, h2, h3)"
      by (simp only: match_g1.simps option.case prod.case)
    with Cons.prems(1) have "g1 = acc" "g2 = h2" "g3 = h3" by simp_all
    with Some x Cons.prems(2) match_ws_dot show ?thesis by blast
  next
    case None
    then have "match_g1 acc (c # r) = (if is_dot c then match_g1 (acc @ [c]) r else None)"
      by (simp only: match_g1.simps option.case)
    with Cons.prems(1) have d: "is_dot c" and m: "match_g1 (acc @ [c]) r = Some (g1, g2, g3)"
      by (auto split: if_splits)
    from d Cons.prems(2) have "newline \<notin> set (acc @ [c])" by (auto simp: is_dot_def)
    with m show ?thesis by (rule Cons.IH)
  qed
qed

lemma search_dot:
  "RE_LINE_search s = Some (g1, g2, g3) \<Longrightarrow> newline \<notin> set g1 \<and> newline \<notin> set g2"
  unfolding RE_LINE_search_def using match_g1_dot [of "[]" s g1 g2 g3] by simp

subsection \<open>Formatting and the emitter loop\<close>

lemma digit_char_not_newline: "k < 10 \<Longrightarrow> digit_char k \<noteq> newline"
proof
  assume k: "k < 10" and e: "digit_char k = newline"
  have "of_char (digit_char k) = (48 + k) mod 256"
    by (simp add: digit_char_def)
  also have "\<dots> = 48 + k" using k by simp
  finally have "of_char (digit_char k) = 48 + k" .
  moreover have "of_char newline = (10::nat)" by (simp add: newline_def)
  ultimately show False using e by simp
qed

lemma str_nat_no_newline: "newline \<notin> set (str_nat n)"
proof (induction n rule: str_nat.induct)
  case (1 n)
  show ?case
  proof (cases "n < 10")
    case True
    then show ?thesis using digit_char_not_newline [of n] by (subst str_nat.simps) simp
  next
    case False
    have "digit_char (n mod 10) \<noteq> newline" by (rule digit_char_not_newline) simp
    with False 1 show ?thesis by (subst str_nat.simps) auto
  qed
qed

lemma fmt_row_no_newline:
  "newline \<notin> set g1 \<Longrightarrow> newline \<notin> set g2 \<Longrightarrow> newline \<notin> set (fmt_row g1 i g2)"
  using str_nat_no_newline [of i] by (auto simp: fmt_row_def fmt_3d_def newline_def)

lemma emit_line_no_newline: "emit_line i r = Inr s \<Longrightarrow> newline \<notin> set s"
proof -
  assume e: "emit_line i r = Inr s"
  then obtain g1 g2 g3 where m: "RE_LINE_search r = Some (g1, g2, g3)" and s: "s = fmt_row g1 i g2"
    by (auto simp: emit_line_def split: option.splits)
  from m have "newline \<notin> set g1" "newline \<notin> set g2" using search_dot by blast+
  then show ?thesis unfolding s by (rule fmt_row_no_newline)
qed

lemma emit_loop_snd:
  "\<forall>r\<in>set rows. RE_LINE_search r \<noteq> None \<Longrightarrow> snd (emit_loop i rows out) = None"
  by (induction rows arbitrary: i out) (auto simp: emit_line_def split: sum.splits option.splits)

lemma emit_loop_length:
  "\<forall>r\<in>set rows. RE_LINE_search r \<noteq> None \<Longrightarrow>
     length (fst (emit_loop i rows out)) = length out + length rows"
  by (induction rows arbitrary: i out) (auto simp: emit_line_def split: sum.splits option.splits)

lemma emit_loop_keeps:
  "k < length out \<Longrightarrow> fst (emit_loop i rows out) ! k = out ! k"
  by (induction rows arbitrary: i out) (auto simp: nth_append split: sum.splits)

lemma emit_loop_nth:
  "\<forall>r\<in>set rows. RE_LINE_search r \<noteq> None \<Longrightarrow> k < length rows \<Longrightarrow>
     emit_line (i + k) (rows ! k) = Inr (fst (emit_loop i rows out) ! (length out + k))"
proof (induction rows arbitrary: i out k)
  case Nil
  then show ?case by simp
next
  case (Cons r rows)
  from Cons.prems(1) obtain s where s: "emit_line i r = Inr s"
    by (auto simp: emit_line_def split: option.splits)
  show ?case
  proof (cases k)
    case 0
    then show ?thesis using s emit_loop_keeps [of "length out" "out @ [s]" "Suc i" rows]
      by simp
  next
    case (Suc j)
    with Cons.prems have "j < length rows" and "\<forall>r\<in>set rows. RE_LINE_search r \<noteq> None"
      by simp_all
    then have "emit_line (Suc i + j) (rows ! j) =
        Inr (fst (emit_loop (Suc i) rows (out @ [s])) ! (length (out @ [s]) + j))"
      using Cons.IH by blast
    then show ?thesis using s Suc by simp
  qed
qed

lemma emit_loop_no_newline:
  "\<forall>l\<in>set out. newline \<notin> set l \<Longrightarrow>
     \<forall>l\<in>set (fst (emit_loop i rows out)). newline \<notin> set l"
proof (induction rows arbitrary: i out)
  case Nil
  then show ?case by simp
next
  case (Cons r rows)
  show ?case
  proof (cases "emit_line i r")
    case (Inl e)
    with Cons.prems show ?thesis by simp
  next
    case (Inr s)
    then have "newline \<notin> set s" by (rule emit_line_no_newline)
    with Cons.prems have "\<forall>l\<in>set (out @ [s]). newline \<notin> set l" by simp
    then have "\<forall>l\<in>set (fst (emit_loop (Suc i) rows (out @ [s]))). newline \<notin> set l"
      by (rule Cons.IH)
    with Inr show ?thesis by simp
  qed
qed

lemma count_newlines:
  "\<forall>l\<in>set out. newline \<notin> set l \<Longrightarrow> count_list (stdout_text out) newline = length out"
  by (induction out) (simp_all add: stdout_text_def)

lemma fmt_row_last: "g2 \<noteq> [] \<Longrightarrow> last (fmt_row g1 i g2) = last g2"
  by (simp add: fmt_row_def)

subsection \<open>Facts about the table\<close>

lemma adobe_lines_length: "length adobe_lines = 73"
  by (simp add: adobe_lines_def)

lemma adobe_lines_space: "list_all (list_ex is_space) adobe_lines"
  by code_simp

lemma adobe_lines_dot: "list_all (list_all is_dot) adobe_lines"
  by code_simp

lemma adobe_lines_search:
  assumes "r \<in> set adobe_lines"
  shows "RE_LINE_search r \<noteq> None"
proof -
  from assms adobe_lines_space have "\<exists>c\<in>set r. is_space c"
    by (simp add: list_all_iff list_ex_iff)
  moreover from assms adobe_lines_dot have "newline \<notin> set r"
    by (auto simp: list_all_iff is_dot_def)
  ultimately show ?thesis by (simp add: search_total)
qed

lemma adobe_lines_no_page:
  "list_all (\<lambda>r. (r \<noteq> [] \<and> is_digit (last r)) \<or>
      (case RE_LINE_search r of Some (g1, g2, None) \<Rightarrow> True | _ \<Rightarrow> False)) adobe_lines"
  by code_simp

lemma adobe_lines_page:
  "list_all (\<lambda>r. (r \<noteq> [] \<and> is_digit (last r)) \<longrightarrow>
      (case RE_LINE_search r of
         Some (g1, g2, Some d) \<Rightarrow> g2 \<noteq> [] \<and> last g2 = CHR '' ''
       | _ \<Rightarrow> False)) adobe_lines"
  by code_simp

subsection \<open>The program as a whole\<close>

lemma program_eq:
  "program = (fst (emit_loop 0 adobe_lines header_lines) @ [''}''], None)"
proof -
  obtain out e where r: "emit_loop 0 adobe_lines header_lines = (out, e)"
    by (cases "emit_loop 0 adobe_lines header_lines")
  have "snd (emit_loop 0 adobe_lines header_lines) = None"
    by (rule emit_loop_snd) (simp add: adobe_lines_search)
  with r have "e = None" by simp
  with r show ?thesis by (simp add: program_def)
qed

lemma program_length: "length (fst program) = length adobe_lines + 3"
  by (simp add: program_eq emit_loop_length adobe_lines_search header_lines_def)

lemma program_nth:
  assumes "i < length adobe_lines"
  shows "emit_line i (adobe_lines ! i) = Inr (fst program ! (i + 2))"
proof -
  have "emit_line (0 + i) (adobe_lines ! i) =
      Inr (fst (emit_loop 0 adobe_lines header_lines) ! (length header_lines + i))"
    by (rule emit_loop_nth) (simp_all add: adobe_lines_search assms)
  moreover have "length header_lines + i < length (fst (emit_loop 0 adobe_lines header_lines))"
    using assms by (simp add: emit_loop_length adobe_lines_search)
  ultimately show ?thesis
    by (simp add: program_eq nth_append header_lines_def add.commute)
qed

lemma program_no_newline: "\<forall>l\<in>set (fst program). newline \<notin> set l"
proof -
  have "\<forall>l\<in>set header_lines. newline \<notin> set l"
    using str_nat_no_newline [of "length adobe_lines"] by (simp add: header_lines_def newline_def)
  then have "\<forall>l\<in>set (fst (emit_loop 0 adobe_lines header_lines)). newline \<notin> set l"
    by (rule emit_loop_no_newline)
  then show ?thesis by (simp add: program_eq newline_def)
qed

lemma program_newlines:
  "count_list (stdout_text (fst program)) newline = length adobe_lines + 3"
  using count_newlines [OF program_no_newline] by (simp add: program_length)

section \<open>The specified properties\<close>

text \<open>
  C1 (as stated: the pattern matches every input string).  The separator \<open>\s+\<close> between
  groups 1 and 2 is mandatory, so a string without whitespace does not match: for \<open>Annex\<close>,
  one of the rows commented out in the source, \<open>search\<close> returns \<open>None\<close>.
\<close>

theorem RE_LINE_search_Annex_no_match: "RE_LINE_search ''Annex'' = None"
  by code_simp

text \<open>
  C1 (amended).  A string with no whitespace character never matches; a string with at least
  one whitespace character and no line feed always matches.  The three capture groups can all
  be empty, as on the string of one space.
\<close>

theorem RE_LINE_search_matches_iff_space:
  "(RE_LINE_search s \<noteq> None \<longrightarrow> (\<exists>c\<in>set s. is_space c)) \<and>
   (newline \<notin> set s \<and> (\<exists>c\<in>set s. is_space c) \<longrightarrow> RE_LINE_search s \<noteq> None) \<and>
   RE_LINE_search '' '' = Some ([], [], None)"
proof -
  have "RE_LINE_search '' '' = Some ([], [], None)" by code_simp
  moreover have "RE_LINE_search s \<noteq> None \<longrightarrow> (\<exists>c\<in>set s. is_space c)"
    unfolding RE_LINE_search_def using match_g1_needs_space by blast
  ultimately show ?thesis using search_total by blast
qed

theorem RE_LINE_search_matches_iff_space_witness:
  "newline \<notin> set ''Tc Set character spacing'' \<and>
   (\<exists>c\<in>set ''Tc Set character spacing''. is_space c) \<and>
   RE_LINE_search ''Tc Set character spacing'' \<noteq> None"
proof -
  have n: "newline \<notin> set ''Tc Set character spacing''"
    by (simp add: newline_def)
  have "list_ex is_space ''Tc Set character spacing''" by code_simp
  then have w: "\<exists>c\<in>set ''Tc Set character spacing''. is_space c"
    by (simp only: list_ex_iff)
  from n w RE_LINE_search_matches_iff_space [of "''Tc Set character spacing''"]
  show ?thesis by blast
qed

text \<open>
  C2 (as stated: the line for the row \<open>m moveto Begin new subpath 59\<close> is
  \<open>`m`: false,  //  41: moveto Begin new subpath\<close>).  The row is at position 36 of the
  table, not 41, and the emitter, called with the row's index, does not return the stated line.
\<close>

theorem emit_moveto_not_index_41:
  "adobe_lines ! 36 = ''m moveto Begin new subpath 59'' \<and>
   adobe_lines ! 41 \<noteq> ''m moveto Begin new subpath 59'' \<and>
   emit_line 36 ''m moveto Begin new subpath 59'' \<noteq>
     Inr ([CHR 0x60] @ ''m'' @ [CHR 0x60] @ '': false,  //  41: moveto Begin new subpath'')"
  by code_simp

text \<open>
  C2 (amended).  The row \<open>m moveto Begin new subpath 59\<close> is at zero-based position 36; the
  emitter prints for it a tab, the backtick-quoted name \<open>m\<close>, \<open>: false,\<close>, two spaces, \<open>//\<close>, the
  index 36 in a field of width 3 after one space, a colon, a space, and the middle text with the
  space that preceded the page number.  This is line 38 (counting from 0) of the output.
\<close>

theorem emit_moveto_line:
  "adobe_lines ! 36 = ''m moveto Begin new subpath 59'' \<and>
   emit_line 36 ''m moveto Begin new subpath 59'' =
     Inr ([CHR 0x09, CHR 0x60] @ ''m'' @ [CHR 0x60] @
          '': false,  //  36: moveto Begin new subpath '') \<and>
   fst program ! 38 =
     [CHR 0x09, CHR 0x60] @ ''m'' @ [CHR 0x60] @ '': false,  //  36: moveto Begin new subpath ''"
proof -
  have r: "adobe_lines ! 36 = ''m moveto Begin new subpath 59''"
    by code_simp
  have e: "emit_line 36 ''m moveto Begin new subpath 59'' =
     Inr ([CHR 0x09, CHR 0x60] @ ''m'' @ [CHR 0x60] @
          '': false,  //  36: moveto Begin new subpath '')"
    by code_simp
  have "emit_line 36 (adobe_lines ! 36) = Inr (fst program ! (36 + 2))"
    by (rule program_nth) (simp add: adobe_lines_length)
  with r e have "fst program ! 38 =
     [CHR 0x09, CHR 0x60] @ ''m'' @ [CHR 0x60] @ '': false,  //  36: moveto Begin new subpath ''"
    by simp
  with r e show ?thesis by blast
qed

text \<open>
  C3 (as stated: each row line is a backtick-quoted name, a colon, \<open>false,\<close>, two spaces,
  \<open>//\<close>, the index right-justified to 3 columns, a colon, a space, the middle text).  The line
  printed for row 0 differs from that template: it starts with a tab.
\<close>

theorem emit_first_row_not_spec_template:
  "emit_line 0 (adobe_lines ! 0) \<noteq>
     Inr (spec_row_line ''b'' 0
       ''closepath, fill, stroke Close, fill, and stroke path using nonzero winding number rule '') \<and>
   map_sum id hd (emit_line 0 (adobe_lines ! 0)) = Inr (CHR 0x09)"
  by code_simp

text \<open>
  C3 (amended).  For every row \<open>i\<close> of the table the row matches, and line \<open>i + 2\<close> of the
  output (after the two header lines, so in table order) is a tab, the backtick-quoted group 1,
  a colon, a space, \<open>false,\<close>, two spaces, \<open>//\<close>, a space, the index \<open>i\<close> padded on the left
  to 3 columns, a colon, a space, and group 2; it holds no line feed, so it is one line.
\<close>

theorem program_row_lines:
  assumes "i < length adobe_lines"
  shows "\<exists>g1 g2 g3. RE_LINE_search (adobe_lines ! i) = Some (g1, g2, g3) \<and>
     fst program ! (i + 2) =
       [CHR 0x09, CHR 0x60] @ g1 @ [CHR 0x60] @ '': false,  // '' @
       replicate (3 - length (str_nat i)) (CHR '' '') @ str_nat i @ '': '' @ g2 \<and>
     newline \<notin> set (fst program ! (i + 2))"
proof -
  from assms have "adobe_lines ! i \<in> set adobe_lines" by simp
  then have "RE_LINE_search (adobe_lines ! i) \<noteq> None" by (rule adobe_lines_search)
  then obtain g1 g2 g3 where m: "RE_LINE_search (adobe_lines ! i) = Some (g1, g2, g3)"
    by auto
  then have "emit_line i (adobe_lines ! i) = Inr (fmt_row g1 i g2)"
    by (simp add: emit_line_def)
  with program_nth [OF assms] have l: "fst program ! (i + 2) = fmt_row g1 i g2" by simp
  from assms have "i + 2 < length (fst program)" by (simp add: program_length)
  then have "newline \<notin> set (fst program ! (i + 2))"
    using program_no_newline by (meson nth_mem)
  with m l show ?thesis by (simp add: fmt_row_def fmt_3d_def)
qed

theorem program_row_lines_witness:
  "(0::nat) < length adobe_lines \<and>
   (\<exists>g1 g2 g3. RE_LINE_search (adobe_lines ! 0) = Some (g1, g2, g3) \<and>
     fst program ! (0 + 2) =
       [CHR 0x09, CHR 0x60] @ g1 @ [CHR 0x60] @ '': false,  // '' @
       replicate (3 - length (str_nat 0)) (CHR '' '') @ str_nat 0 @ '': '' @ g2 \<and>
     newline \<notin> set (fst program ! (0 + 2)))"
proof -
  have h: "(0::nat) < length adobe_lines" by (simp add: adobe_lines_length)
  from h program_row_lines [OF h] show ?thesis by blast
qed

text \<open>
  C4.  Every row of the table \<open>adobe_lines\<close> matches \<open>RE_LINE\<close>: \<open>search\<close> returns a match
  object, not \<open>None\<close>.
\<close>

theorem adobe_lines_all_match: "r \<in> set adobe_lines \<Longrightarrow> RE_LINE_search r \<noteq> None"
  by (rule adobe_lines_search)

theorem adobe_lines_all_match_witness:
  "''BT Begin text object 107'' \<in> set adobe_lines \<and>
   RE_LINE_search ''BT Begin text object 107'' \<noteq> None"
proof -
  have m: "''BT Begin text object 107'' \<in> set adobe_lines"
    by (simp add: adobe_lines_def)
  from m adobe_lines_all_match [OF m] show ?thesis by simp
qed

text \<open>
  C5.  The first row of the table ends in the digits \<open>60\<close>; group 3 of its match is the
  string \<open>60\<close> (group 1 is \<open>b\<close>, group 2 the text in between with its trailing space).
\<close>

theorem page_number_of_first_row:
  "adobe_lines ! 0 =
     ''b closepath, fill, stroke Close, fill, and stroke path using nonzero winding number rule 60'' \<and>
   RE_LINE_search
     ''b closepath, fill, stroke Close, fill, and stroke path using nonzero winding number rule 60'' =
     Some (''b'',
       ''closepath, fill, stroke Close, fill, and stroke path using nonzero winding number rule '',
       Some ''60'')"
  by code_simp

text \<open>
  C6.  For every row of the table that does not end in a digit, the row matches and group 3
  took no part in the match (its value is \<open>None\<close>); \<open>Tc Set character spacing\<close> is such a row.
\<close>

theorem adobe_lines_no_trailing_digits_no_page:
  assumes "r \<in> set adobe_lines" and "\<not> (r \<noteq> [] \<and> is_digit (last r))"
  shows "\<exists>g1 g2. RE_LINE_search r = Some (g1, g2, None)"
proof -
  from assms adobe_lines_no_page
  have "case RE_LINE_search r of Some (g1, g2, None) \<Rightarrow> True | _ \<Rightarrow> False"
    unfolding list_all_iff by blast
  then show ?thesis by (auto split: option.splits)
qed

theorem adobe_lines_no_trailing_digits_no_page_witness:
  "''Tc Set character spacing'' \<in> set adobe_lines \<and>
   \<not> (''Tc Set character spacing'' \<noteq> [] \<and> is_digit (last ''Tc Set character spacing'')) \<and>
   (\<exists>g1 g2. RE_LINE_search ''Tc Set character spacing'' = Some (g1, g2, None)) \<and>
   RE_LINE_search ''Tc Set character spacing'' = Some (''Tc'', ''Set character spacing'', None)"
proof -
  have m: "''Tc Set character spacing'' \<in> set adobe_lines"
    by (simp add: adobe_lines_def)
  have "\<not> is_digit (last ''Tc Set character spacing'')" by code_simp
  then have d: "\<not> (''Tc Set character spacing'' \<noteq> [] \<and> is_digit (last ''Tc Set character spacing''))"
    by blast
  have v: "RE_LINE_search ''Tc Set character spacing'' = Some (''Tc'', ''Set character spacing'', None)"
    by code_simp
  from m d v adobe_lines_no_trailing_digits_no_page [OF m d] show ?thesis by blast
qed

text \<open>
  C7 (as stated: the program writes row count plus 2 lines).  The program also prints the
  line with the row count before the opening line, so neither the number of calls of \<open>print\<close>
  nor the number of line feeds written is the row count plus 2.
\<close>

theorem program_line_count_not_plus_2:
  "length (fst program) \<noteq> length adobe_lines + 2 \<and>
   count_list (stdout_text (fst program)) newline \<noteq> length adobe_lines + 2"
  by (simp add: program_length program_newlines)

text \<open>
  C7 (amended).  The loop prints as many lines as the table has rows, and the program writes
  the row count plus 3 lines: the count line, the opening line, the row lines, the closing line.
\<close>

theorem program_line_count:
  "length (fst (emit_loop 0 adobe_lines [])) = length adobe_lines \<and>
   length (fst program) = length adobe_lines + 3 \<and>
   count_list (stdout_text (fst program)) newline = length adobe_lines + 3"
  by (simp add: program_length program_newlines emit_loop_length adobe_lines_search)

text \<open>
  C8.  The run of the program on its table ends without an exception, with exit status 0.
\<close>

theorem program_exits_0: "snd program = None \<and> exit_code program = 0"
  by (simp add: program_eq exit_code_def)

text \<open>
  C9.  Every row of the table holds at least one whitespace character, and so the emitter's
  accesses \<open>m.group(1)\<close> and \<open>m.group(2)\<close> never raise on a row of the table, whatever the index.
\<close>

theorem adobe_lines_have_whitespace:
  "r \<in> set adobe_lines \<Longrightarrow>
     (\<exists>c\<in>set r. is_space c) \<and> (\<forall>i. emit_line i r \<noteq> Inl AttributeError)"
proof -
  assume r: "r \<in> set adobe_lines"
  with adobe_lines_space have "\<exists>c\<in>set r. is_space c"
    by (simp add: list_all_iff list_ex_iff)
  moreover from r have "RE_LINE_search r \<noteq> None" by (rule adobe_lines_search)
  then have "\<forall>i. emit_line i r \<noteq> Inl AttributeError"
    by (auto simp: emit_line_def)
  ultimately show ?thesis by simp
qed

theorem adobe_lines_have_whitespace_witness:
  "''Do Invoke named XObject 87'' \<in> set adobe_lines \<and>
   (\<exists>c\<in>set ''Do Invoke named XObject 87''. is_space c) \<and>
   (\<forall>i. emit_line i ''Do Invoke named XObject 87'' \<noteq> Inl AttributeError)"
proof -
  have m: "''Do Invoke named XObject 87'' \<in> set adobe_lines"
    by (simp add: adobe_lines_def)
  from m adobe_lines_have_whitespace [OF m] show ?thesis by simp
qed

text \<open>
  C10.  For every row of the table that ends in a digit, group 3 is present, group 2 is not
  empty and ends with a space, and the line the emitter prints for the row ends with that space.
\<close>

theorem adobe_lines_page_row_trailing_space:
  assumes "r \<in> set adobe_lines" and "r \<noteq> []" and "is_digit (last r)"
  shows "\<exists>g1 g2 d. RE_LINE_search r = Some (g1, g2, Some d) \<and>
     g2 \<noteq> [] \<and> last g2 = CHR '' '' \<and>
     (\<forall>i. emit_line i r = Inr (fmt_row g1 i g2) \<and> last (fmt_row g1 i g2) = CHR '' '')"
proof -
  from assms adobe_lines_page
  have "case RE_LINE_search r of
         Some (g1, g2, Some d) \<Rightarrow> g2 \<noteq> [] \<and> last g2 = CHR '' ''
       | _ \<Rightarrow> False"
    unfolding list_all_iff by blast
  then obtain g1 g2 d where m: "RE_LINE_search r = Some (g1, g2, Some d)"
    and g: "g2 \<noteq> []" "last g2 = CHR '' ''"
    by (auto split: option.splits)
  from m have "\<forall>i. emit_line i r = Inr (fmt_row g1 i g2)" by (simp add: emit_line_def)
  moreover from g have "\<forall>i. last (fmt_row g1 i g2) = CHR '' ''" by (simp add: fmt_row_last)
  ultimately show ?thesis using m g by blast
qed

theorem adobe_lines_page_row_trailing_space_witness:
  "''ET End text object 107'' \<in> set adobe_lines \<and> ''ET End text object 107'' \<noteq> [] \<and>
   is_digit (last ''ET End text object 107'') \<and>
   (\<exists>g1 g2 d. RE_LINE_search ''ET End text object 107'' = Some (g1, g2, Some d) \<and>
     g2 \<noteq> [] \<and> last g2 = CHR '' '' \<and>
     (\<forall>i. emit_line i ''ET End text object 107'' = Inr (fmt_row g1 i g2) \<and>
          last (fmt_row g1 i g2) = CHR '' ''))"
proof -
  have m: "''ET End text object 107'' \<in> set adobe_lines"
    by (simp add: adobe_lines_def)
  have n: "''ET End text object 107'' \<noteq> []" by simp
  have d: "is_digit (last ''ET End text object 107'')" by code_simp
  from m n d adobe_lines_page_row_trailing_space [OF m n d] show ?thesis by blast
qed

end
